theory Spec2Isabelle
  imports Complex_Main
begin

section \<open>Merkle tree over contract clauses: the functions of contract\_verifier.py\<close>

text \<open>
  Digests are Python strings, modelled as \<open>string\<close>. A tree is the list of its levels,
  level 0 first. A proof step is the pair (sibling digest, side), the side being one of
  the string literals \<open>''left''\<close> and \<open>''right''\<close>, as in the source.

  \<open>hash_data\<close> wraps \<open>hashlib.sha256\<close>, which is a library of the Python distribution
  and not code of the repository. Every function that hashes takes the digest function
  as its first argument, named \<open>hash_data\<close>; what is proved holds for every digest
  function, SHA-256 among them. String concatenation \<open>+\<close> is \<open>@\<close>.

  Every index read of the source stands behind a test of the index against the length
  (\<open>i + 1 < len(level)\<close>, the \<open>range\<close> bounds, \<open>tree and tree[-1]\<close>), so no
  read raises and the functions have no error result. \<open>tree[-1]\<close> is \<open>last tree\<close>,
  read only where the tree is not empty.
\<close>

type_synonym digest = string
type_synonym hash_fn = "string \<Rightarrow> digest"
type_synonym proof_step = "digest \<times> string"

subsection \<open>build\_merkle\_tree\<close>

text \<open>
  The inner \<open>for i in range(0, len(level), 2)\<close> loop of \<open>build_merkle_tree\<close>:
  \<open>i\<close> is the loop index, \<open>next_level\<close> the list built so far.
\<close>

function pair_loop :: "hash_fn \<Rightarrow> digest list \<Rightarrow> nat \<Rightarrow> digest list \<Rightarrow> digest list" where
  "pair_loop hash_data level i next_level =
     (if i < length level then
        (let left_child = level ! i;
             right_child = (if i + 1 < length level then level ! (i + 1) else level ! i);
             combined = hash_data (left_child @ right_child)
         in pair_loop hash_data level (i + 2) (next_level @ [combined]))
      else next_level)"
  by pat_completeness auto
termination
  by (relation "measure (\<lambda>(h, level, i, acc). length level - i)") auto

declare pair_loop.simps [simp del]

text \<open>
  The \<open>while len(tree[-1]) > 1\<close> loop. Nothing is assumed about its termination: the
  result is \<open>None\<close> where the loop would run forever.
\<close>

partial_function (option) build_loop :: "hash_fn \<Rightarrow> digest list list \<Rightarrow> digest list list option" where
  "build_loop hash_data tree =
     (if length (last tree) > 1 then
        build_loop hash_data (tree @ [pair_loop hash_data (last tree) 0 []])
      else Some tree)"

declare build_loop.simps [code]

definition build_merkle_tree :: "hash_fn \<Rightarrow> digest list \<Rightarrow> digest list list option" where
  "build_merkle_tree hash_data leaf_hashes =
     (if leaf_hashes = [] then Some [] else build_loop hash_data [leaf_hashes])"

subsection \<open>get\_merkle\_root\<close>

definition get_merkle_root :: "digest list list \<Rightarrow> digest" where
  "get_merkle_root tree =
     (if tree \<noteq> [] \<and> last tree \<noteq> [] then last tree ! 0 else ''EMPTY_CONTRACT'')"

subsection \<open>get\_merkle\_proof\<close>

text \<open>
  The inner loop over the pairs of one level. It returns the step appended to the proof
  together with the new \<open>current_hash_up\<close>, or \<open>None\<close> when the loop ends with
  \<open>found_in_level\<close> still false.
\<close>

function scan_level :: "hash_fn \<Rightarrow> digest list \<Rightarrow> nat \<Rightarrow> digest \<Rightarrow> (proof_step \<times> digest) option" where
  "scan_level hash_data level i current_hash_up =
     (if i < length level then
        (let left_node = level ! i;
             right_node = (if i + 1 < length level then level ! (i + 1) else level ! i)
         in if current_hash_up = left_node then
              Some ((right_node, ''right''), hash_data (left_node @ right_node))
            else if current_hash_up = right_node then
              Some ((left_node, ''left''), hash_data (left_node @ right_node))
            else scan_level hash_data level (i + 2) current_hash_up)
      else None)"
  by pat_completeness auto
termination
  by (relation "measure (\<lambda>(h, level, i, c). length level - i)") auto

declare scan_level.simps [simp del]

text \<open>The outer \<open>for level_index in range(len(tree) - 1)\<close> loop, with its early \<open>return []\<close>.\<close>

function proof_loop :: "hash_fn \<Rightarrow> digest list list \<Rightarrow> nat \<Rightarrow> proof_step list \<Rightarrow> digest \<Rightarrow> proof_step list" where
  "proof_loop hash_data tree level_index proof_revised current_hash_up =
     (if level_index < length tree - 1 then
        (case scan_level hash_data (tree ! level_index) 0 current_hash_up of
           None \<Rightarrow> []
         | Some (step, parent) \<Rightarrow>
             proof_loop hash_data tree (level_index + 1) (proof_revised @ [step]) parent)
      else proof_revised)"
  by pat_completeness auto
termination
  by (relation "measure (\<lambda>(h, tree, k, p, c). length tree - 1 - k)") auto

declare proof_loop.simps [simp del]

definition get_merkle_proof :: "hash_fn \<Rightarrow> digest list list \<Rightarrow> digest \<Rightarrow> proof_step list" where
  "get_merkle_proof hash_data tree target_hash =
     (if tree = [] \<or> tree ! 0 = [] then []
      else proof_loop hash_data tree 0 [] target_hash)"

subsection \<open>verify\_merkle\_proof\<close>

text \<open>
  The loop over the proof steps; \<open>None\<close> is the early \<open>return False\<close> on a side that is
  neither \<open>''left''\<close> nor \<open>''right''\<close>.
\<close>

fun verify_loop :: "hash_fn \<Rightarrow> digest \<Rightarrow> proof_step list \<Rightarrow> digest option" where
  "verify_loop hash_data computed_hash [] = Some computed_hash"
| "verify_loop hash_data computed_hash ((sibling_hash, side) # rest) =
     (if side = ''left'' then
        verify_loop hash_data (hash_data (sibling_hash @ computed_hash)) rest
      else if side = ''right'' then
        verify_loop hash_data (hash_data (computed_hash @ sibling_hash)) rest
      else None)"

definition verify_merkle_proof :: "hash_fn \<Rightarrow> proof_step list \<Rightarrow> digest \<Rightarrow> digest \<Rightarrow> bool" where
  "verify_merkle_proof hash_data proof_steps target_hash merkle_root =
     (case verify_loop hash_data target_hash proof_steps of
        None \<Rightarrow> False
      | Some computed_hash \<Rightarrow> computed_hash = merkle_root)"

section \<open>The loops as structural recursions\<close>

text \<open>
  The index loops of the source, once more as recursions over the list itself. They are
  proved equal to the loops above and carry the inductions below.

  One pass over a level, pair by pair; an unpaired last node is paired with itself.
\<close>

fun pair_up :: "hash_fn \<Rightarrow> digest list \<Rightarrow> digest list" where
  "pair_up h [] = []"
| "pair_up h [x] = [h (x @ x)]"
| "pair_up h (x # y # rest) = h (x @ y) # pair_up h rest"

text \<open>The search for \<open>c\<close> in the pairs of one level.\<close>

fun scan_pairs :: "hash_fn \<Rightarrow> digest list \<Rightarrow> digest \<Rightarrow> (proof_step \<times> digest) option" where
  "scan_pairs h [] c = None"
| "scan_pairs h [x] c = (if c = x then Some ((x, ''right''), h (x @ x)) else None)"
| "scan_pairs h (x # y # rest) c =
     (if c = x then Some ((y, ''right''), h (x @ y))
      else if c = y then Some ((x, ''left''), h (x @ y))
      else scan_pairs h rest c)"

text \<open>The levels above and including a given one, up to the first of length at most 1.\<close>

function levels :: "hash_fn \<Rightarrow> digest list \<Rightarrow> digest list list" where
  "levels h level = (if 1 < length level then level # levels h (pair_up h level) else [level])"
  by pat_completeness auto
termination
proof (relation "measure (\<lambda>(h, level). length level)")
  show "wf (measure (\<lambda>(h, level). length level))"
    by simp
next
  fix h :: hash_fn and level :: "digest list"
  assume long: "1 < length level"
  have "length (pair_up h xs) = (length xs + 1) div 2" for xs
    by (induction h xs rule: pair_up.induct) simp_all
  then show "((h, pair_up h level), (h, level)) \<in> measure (\<lambda>(h, level). length level)"
    using long by simp
qed

declare levels.simps [simp del]

text \<open>The walk of \<open>get_merkle_proof\<close> up the levels that are left.\<close>

fun proof_walk :: "hash_fn \<Rightarrow> digest list list \<Rightarrow> proof_step list \<Rightarrow> digest \<Rightarrow> proof_step list" where
  "proof_walk h (level # upper # rest) acc c =
     (case scan_pairs h level c of
        None \<Rightarrow> []
      | Some (step, parent) \<Rightarrow> proof_walk h (upper # rest) (acc @ [step]) parent)"
| "proof_walk h tree acc c = acc"

lemma pair_loop_drop:
  "pair_loop h level i acc = acc @ pair_up h (drop i level)"
proof (induction h level i acc rule: pair_loop.induct)
  case (1 h level i acc)
  show ?case
  proof (cases "i < length level")
    case False
    then show ?thesis by (simp add: pair_loop.simps [of h level i acc])
  next
    case True
    note i = True
    show ?thesis
    proof (cases "i + 1 < length level")
      case True
      then have d: "drop i level = level ! i # level ! (i + 1) # drop (i + 2) level"
        using i by (simp add: Cons_nth_drop_Suc)
      show ?thesis
        using "1.IH" [OF i refl refl refl] i True
        by (simp add: pair_loop.simps [of h level i acc] d)
    next
      case False
      then have d: "drop i level = [level ! i]" "drop (i + 2) level = []"
        using i by (simp_all flip: Cons_nth_drop_Suc)
      show ?thesis
        using "1.IH" [OF i refl refl refl] i False
        by (simp add: pair_loop.simps [of h level i acc] d)
    qed
  qed
qed

lemma pair_loop_pair_up: "pair_loop h level 0 [] = pair_up h level"
  by (simp add: pair_loop_drop)

lemma length_pair_up: "length (pair_up h level) = (length level + 1) div 2"
  by (induction h level rule: pair_up.induct) simp_all

lemma pair_up_shorter: "1 < length level \<Longrightarrow> length (pair_up h level) < length level"
  by (simp add: length_pair_up)

lemma scan_level_drop:
  "scan_level h level i c = scan_pairs h (drop i level) c"
proof (induction h level i c rule: scan_level.induct)
  case (1 h level i c)
  show ?case
  proof (cases "i < length level")
    case False
    then show ?thesis by (simp add: scan_level.simps [of h level i c])
  next
    case True
    note i = True
    show ?thesis
    proof (cases "i + 1 < length level")
      case True
      then have d: "drop i level = level ! i # level ! (i + 1) # drop (i + 2) level"
        using i by (simp add: Cons_nth_drop_Suc)
      show ?thesis
        using "1.IH" [OF i refl refl] i True
        by (simp add: scan_level.simps [of h level i c] d Let_def)
    next
      case False
      then have d: "drop i level = [level ! i]" "drop (i + 2) level = []"
        using i by (simp_all flip: Cons_nth_drop_Suc)
      show ?thesis
        using i False
        by (simp add: scan_level.simps [of h level i c]
            scan_level.simps [of h level "Suc (Suc i)" c] d Let_def)
    qed
  qed
qed

lemma build_loop_levels:
  "build_loop h (pre @ [level]) = Some (pre @ levels h level)"
proof (induction h level arbitrary: pre rule: levels.induct)
  case (1 h level)
  show ?case
  proof (cases "1 < length level")
    case True
    have "build_loop h (pre @ [level]) = build_loop h ((pre @ [level]) @ [pair_up h level])"
      using True by (subst build_loop.simps) (simp add: pair_loop_pair_up)
    also have "\<dots> = Some ((pre @ [level]) @ levels h (pair_up h level))"
      by (rule "1.IH" [OF True])
    also have "\<dots> = Some (pre @ levels h level)"
      using True by (simp add: levels.simps [of h level])
    finally show ?thesis .
  next
    case False
    then show ?thesis
      by (subst build_loop.simps) (simp add: levels.simps [of h level])
  qed
qed

lemma build_merkle_tree_levels:
  "leaf_hashes \<noteq> [] \<Longrightarrow> build_merkle_tree h leaf_hashes = Some (levels h leaf_hashes)"
  using build_loop_levels [of h "[]" leaf_hashes] by (simp add: build_merkle_tree_def)

lemma proof_loop_drop:
  "proof_loop h tree k acc c = proof_walk h (drop k tree) acc c"
proof (induction h tree k acc c rule: proof_loop.induct)
  case (1 h tree k acc c)
  show ?case
  proof (cases "k < length tree - 1")
    case False
    then have "length (drop k tree) \<le> 1"
      by simp
    then have "drop k tree = [] \<or> (\<exists>x. drop k tree = [x])"
      by (cases "drop k tree") (simp_all del: length_drop)
    then show ?thesis
      using False by (auto simp: proof_loop.simps [of h tree k acc c])
  next
    case True
    then have d: "drop k tree = tree ! k # tree ! (k + 1) # drop (k + 2) tree"
      and d': "drop (Suc k) tree = tree ! (k + 1) # drop (k + 2) tree"
      by (simp_all add: Cons_nth_drop_Suc)
    show ?thesis
    proof (cases "scan_pairs h (tree ! k) c")
      case None
      then show ?thesis
        using True by (simp add: proof_loop.simps [of h tree k acc c] d scan_level_drop)
    next
      case (Some r)
      obtain step parent where r: "r = (step, parent)" by (cases r)
      have sl: "scan_level h (tree ! k) 0 c = Some (step, parent)"
        using Some r by (simp add: scan_level_drop)
      show ?thesis
        using "1.IH" [OF True sl refl] True Some r
        by (simp add: proof_loop.simps [of h tree k acc c] d d' scan_level_drop)
    qed
  qed
qed

section \<open>What one level scan finds\<close>

lemma scan_pairs_found:
  "c \<in> set level \<Longrightarrow>
   \<exists>sib side parent. scan_pairs h level c = Some ((sib, side), parent)
     \<and> parent \<in> set (pair_up h level) \<and> sib \<in> set level
     \<and> (side = ''left'' \<and> parent = h (sib @ c) \<or> side = ''right'' \<and> parent = h (c @ sib))"
  by (induction h level c rule: scan_pairs.induct) auto

lemma scan_pairs_absent: "c \<notin> set level \<Longrightarrow> scan_pairs h level c = None"
  by (induction h level c rule: scan_pairs.induct) auto

lemma pair_up_nth:
  "j < length (pair_up h level) \<Longrightarrow>
   pair_up h level ! j =
     h (level ! (2 * j) @ (if 2 * j + 1 < length level then level ! (2 * j + 1) else level ! (2 * j)))"
proof (induction h level arbitrary: j rule: pair_up.induct)
  case (3 h x y rest)
  then show ?case by (cases j) simp_all
qed simp_all

section \<open>The levels of a built tree\<close>

lemma levels_not_Nil: "levels h level \<noteq> []"
  by (simp add: levels.simps [of h level])

lemma levels_hd: "levels h level ! 0 = level"
  by (simp add: levels.simps [of h level])

lemma levels_single: "length level \<le> 1 \<Longrightarrow> levels h level = [level]"
  by (simp add: levels.simps [of h level])

lemma levels_step: "1 < length level \<Longrightarrow> levels h level = level # levels h (pair_up h level)"
  by (simp add: levels.simps [of h level])

lemma pair_up_not_Nil: "level \<noteq> [] \<Longrightarrow> pair_up h level \<noteq> []"
  by (cases "(h, level)" rule: pair_up.cases) simp_all

lemma levels_last: "level \<noteq> [] \<Longrightarrow> length (last (levels h level)) = 1"
proof (induction h level rule: levels.induct)
  case (1 h level)
  show ?case
  proof (cases "1 < length level")
    case True
    then have "pair_up h level \<noteq> []"
      using "1.prems" by (simp add: pair_up_not_Nil)
    then show ?thesis
      using "1.IH" [OF True] True by (simp add: levels_step levels_not_Nil)
  next
    case False
    then have "length level = 1"
      using "1.prems" by (cases level) simp_all
    then show ?thesis
      using False by (simp add: levels_single)
  qed
qed

lemma levels_next:
  "k + 1 < length (levels h level) \<Longrightarrow> levels h level ! (k + 1) = pair_up h (levels h level ! k)"
proof (induction h level arbitrary: k rule: levels.induct)
  case (1 h level)
  show ?case
  proof (cases "1 < length level")
    case True
    show ?thesis
    proof (cases k)
      case 0
      then show ?thesis
        using True by (simp add: levels_step levels_hd)
    next
      case (Suc k')
      then show ?thesis
        using "1.IH" [OF True, of k'] "1.prems" True by (simp add: levels_step)
    qed
  next
    case False
    then show ?thesis
      using "1.prems" by (simp add: levels_single)
  qed
qed

section \<open>The path from a leaf to the root\<close>

lemma proof_walk_path:
  "c \<in> set level \<Longrightarrow>
   \<exists>path. proof_walk h (levels h level) acc c = acc @ path
     \<and> length path = length (levels h level) - 1
     \<and> verify_loop h c path = Some (last (levels h level) ! 0)
     \<and> (\<forall>k < length path. fst (path ! k) \<in> set (levels h level ! k)
           \<and> (snd (path ! k) = ''left'' \<or> snd (path ! k) = ''right''))"
proof (induction h level arbitrary: acc c rule: levels.induct)
  case (1 h level)
  show ?case
  proof (cases "1 < length level")
    case False
    then have "level = [c]"
      using "1.prems" by (cases level) auto
    then show ?thesis
      by (simp add: levels_single)
  next
    case True
    obtain sib side parent where
      s: "scan_pairs h level c = Some ((sib, side), parent)"
      and p: "parent \<in> set (pair_up h level)"
      and sib: "sib \<in> set level"
      and side: "side = ''left'' \<and> parent = h (sib @ c) \<or> side = ''right'' \<and> parent = h (c @ sib)"
      using scan_pairs_found [OF "1.prems", of h] by blast
    obtain path where
      w: "proof_walk h (levels h (pair_up h level)) (acc @ [(sib, side)]) parent
            = (acc @ [(sib, side)]) @ path"
      and len: "length path = length (levels h (pair_up h level)) - 1"
      and v: "verify_loop h parent path = Some (last (levels h (pair_up h level)) ! 0)"
      and sibs: "\<forall>k < length path. fst (path ! k) \<in> set (levels h (pair_up h level) ! k)
           \<and> (snd (path ! k) = ''left'' \<or> snd (path ! k) = ''right'')"
      using "1.IH" [OF True p, of "acc @ [(sib, side)]"] by blast
    obtain upper rest where u: "levels h (pair_up h level) = upper # rest"
      using levels_not_Nil [of h "pair_up h level"] by (cases "levels h (pair_up h level)") auto
    let ?path = "(sib, side) # path"
    have 1: "proof_walk h (levels h level) acc c = acc @ ?path"
      using w s True by (simp add: levels_step u)
    have 2: "length ?path = length (levels h level) - 1"
      using len True by (simp add: levels_step u)
    have 3: "verify_loop h c ?path = Some (last (levels h level) ! 0)"
      using v side True by (auto simp: levels_step u)
    have 4: "\<forall>k < length ?path. fst (?path ! k) \<in> set (levels h level ! k)
           \<and> (snd (?path ! k) = ''left'' \<or> snd (?path ! k) = ''right'')"
    proof (intro allI impI)
      fix k assume k: "k < length ?path"
      show "fst (?path ! k) \<in> set (levels h level ! k)
           \<and> (snd (?path ! k) = ''left'' \<or> snd (?path ! k) = ''right'')"
      proof (cases k)
        case 0
        then show ?thesis using sib side True by (auto simp: levels_step)
      next
        case (Suc k')
        then show ?thesis using sibs k True by (simp add: levels_step)
      qed
    qed
    show ?thesis
      using 1 2 3 4 by blast
  qed
qed

section \<open>Proof generation and verification on a built tree\<close>

lemma ceiling_half: "\<lceil>real n / 2\<rceil> = int ((n + 1) div 2)"
  by linarith

lemma get_merkle_proof_levels:
  assumes "c \<in> set level"
  shows "\<exists>path. get_merkle_proof h (levels h level) c = path
     \<and> length path = length (levels h level) - 1
     \<and> verify_loop h c path = Some (last (levels h level) ! 0)
     \<and> (\<forall>k < length path. fst (path ! k) \<in> set (levels h level ! k)
           \<and> (snd (path ! k) = ''left'' \<or> snd (path ! k) = ''right''))"
proof -
  have "level \<noteq> []" using assms by auto
  then have "get_merkle_proof h (levels h level) c = proof_walk h (levels h level) [] c"
    by (simp add: get_merkle_proof_def levels_not_Nil levels_hd proof_loop_drop)
  then show ?thesis
    using proof_walk_path [OF assms, of h "[]"] by simp
qed

lemma get_merkle_root_levels:
  "level \<noteq> [] \<Longrightarrow> get_merkle_root (levels h level) = last (levels h level) ! 0"
  using levels_last [of level h] by (auto simp: get_merkle_root_def levels_not_Nil)

lemma verify_levels:
  assumes "c \<in> set level"
  shows "verify_merkle_proof h (get_merkle_proof h (levels h level) c) c r
           = (r = get_merkle_root (levels h level))"
proof -
  have "level \<noteq> []" using assms by auto
  then show ?thesis
    using get_merkle_proof_levels [OF assms, of h]
    by (auto simp: verify_merkle_proof_def get_merkle_root_levels)
qed

lemma get_merkle_proof_absent:
  assumes "2 \<le> length level" and "c \<notin> set level"
  shows "get_merkle_proof h (levels h level) c = []"
proof -
  have long: "1 < length level" using assms(1) by simp
  obtain upper rest where u: "levels h (pair_up h level) = upper # rest"
    using levels_not_Nil [of h "pair_up h level"] by (cases "levels h (pair_up h level)") auto
  have "level \<noteq> []" using long by auto
  then have "get_merkle_proof h (levels h level) c = proof_walk h (levels h level) [] c"
    by (simp add: get_merkle_proof_def levels_not_Nil levels_hd proof_loop_drop)
  also have "\<dots> = []"
    using long by (simp add: levels_step u scan_pairs_absent [OF assms(2)])
  finally show ?thesis .
qed

lemma get_merkle_proof_one_level: "get_merkle_proof h [[x]] c = []"
  by (simp add: get_merkle_proof_def proof_loop.simps)

section \<open>The properties of the specification\<close>

text \<open>
  C1 (round trip). For every non-empty list of digests and every index \<open>i\<close> in range,
  building the tree returns, and the proof generated from that tree for the \<open>i\<close>-th
  leaf verifies against the tree's root.
\<close>

theorem round_trip:
  "leaf_hashes \<noteq> [] \<Longrightarrow> i < length leaf_hashes \<Longrightarrow>
   \<exists>tree. build_merkle_tree hash_data leaf_hashes = Some tree
     \<and> verify_merkle_proof hash_data
          (get_merkle_proof hash_data tree (leaf_hashes ! i))
          (leaf_hashes ! i) (get_merkle_root tree)"
  by (simp add: build_merkle_tree_levels verify_levels)

theorem round_trip_witness:
  "\<forall>hash_data.
     [hash_data ''A'', hash_data ''B'', hash_data ''C''] \<noteq> []
     \<and> (2::nat) < length [hash_data ''A'', hash_data ''B'', hash_data ''C'']
     \<and> (\<exists>tree. build_merkle_tree hash_data [hash_data ''A'', hash_data ''B'', hash_data ''C'']
            = Some tree
          \<and> verify_merkle_proof hash_data (get_merkle_proof hash_data tree (hash_data ''C''))
               (hash_data ''C'') (get_merkle_root tree))"
proof
  fix hash_data :: hash_fn
  show "[hash_data ''A'', hash_data ''B'', hash_data ''C''] \<noteq> []
     \<and> (2::nat) < length [hash_data ''A'', hash_data ''B'', hash_data ''C'']
     \<and> (\<exists>tree. build_merkle_tree hash_data [hash_data ''A'', hash_data ''B'', hash_data ''C'']
            = Some tree
          \<and> verify_merkle_proof hash_data (get_merkle_proof hash_data tree (hash_data ''C''))
               (hash_data ''C'') (get_merkle_root tree))"
    using round_trip [of "[hash_data ''A'', hash_data ''B'', hash_data ''C'']" 2 hash_data]
    by simp
qed

text \<open>
  C2 (odd-node duplication). The tree of three digests \<open>a\<close>, \<open>b\<close>, \<open>c\<close> has the root
  \<open>hash (hash (a + b) + hash (c + c))\<close>. In every built tree, node \<open>j\<close> of level
  \<open>k + 1\<close> is the hash of node \<open>2 j\<close> of level \<open>k\<close> followed by node \<open>2 j + 1\<close>,
  or followed by node \<open>2 j\<close> again when level \<open>k\<close> ends there.
\<close>

theorem odd_node_duplication:
  "(\<exists>tree. build_merkle_tree hash_data [a, b, c] = Some tree
      \<and> get_merkle_root tree = hash_data (hash_data (a @ b) @ hash_data (c @ c)))
   \<and> (build_merkle_tree hash_data leaf_hashes = Some t \<longrightarrow>
        k + 1 < length t \<longrightarrow> j < length (t ! (k + 1)) \<longrightarrow>
        t ! (k + 1) ! j =
          hash_data (t ! k ! (2 * j) @
            (if 2 * j + 1 < length (t ! k) then t ! k ! (2 * j + 1) else t ! k ! (2 * j))))"
proof (intro conjI impI)
  show "\<exists>tree. build_merkle_tree hash_data [a, b, c] = Some tree
      \<and> get_merkle_root tree = hash_data (hash_data (a @ b) @ hash_data (c @ c))"
    by (simp add: build_merkle_tree_def build_loop.simps pair_loop.simps get_merkle_root_def)
next
  assume b: "build_merkle_tree hash_data leaf_hashes = Some t"
    and k: "k + 1 < length t" and j: "j < length (t ! (k + 1))"
  have "leaf_hashes \<noteq> []"
    using b k by (auto simp: build_merkle_tree_def)
  then have t: "t = levels hash_data leaf_hashes"
    using b by (simp add: build_merkle_tree_levels)
  have "t ! (k + 1) = pair_up hash_data (t ! k)"
    using k unfolding t by (rule levels_next)
  then show "t ! (k + 1) ! j =
          hash_data (t ! k ! (2 * j) @
            (if 2 * j + 1 < length (t ! k) then t ! k ! (2 * j + 1) else t ! k ! (2 * j)))"
    using j pair_up_nth [of j hash_data "t ! k"] by simp
qed

theorem odd_node_duplication_witness:
  "\<forall>hash_data.
     build_merkle_tree hash_data [''a'', ''b'', ''c'']
       = Some [[''a'', ''b'', ''c''], [hash_data ''ab'', hash_data ''cc''],
               [hash_data (hash_data ''ab'' @ hash_data ''cc'')]]
     \<and> (0::nat) + 1 < length [[''a'', ''b'', ''c''], [hash_data ''ab'', hash_data ''cc''],
               [hash_data (hash_data ''ab'' @ hash_data ''cc'')]]
     \<and> (1::nat) < length [hash_data ''ab'', hash_data ''cc'']
     \<and> [hash_data ''ab'', hash_data ''cc''] ! 1 = hash_data (''c'' @ ''c'')"
proof
  fix hash_data :: hash_fn
  let ?t = "[[''a'', ''b'', ''c''], [hash_data ''ab'', hash_data ''cc''],
               [hash_data (hash_data ''ab'' @ hash_data ''cc'')]]"
  have b: "build_merkle_tree hash_data [''a'', ''b'', ''c''] = Some ?t"
    by (simp add: build_merkle_tree_def build_loop.simps pair_loop.simps)
  show "build_merkle_tree hash_data [''a'', ''b'', ''c''] = Some ?t
     \<and> (0::nat) + 1 < length ?t
     \<and> (1::nat) < length [hash_data ''ab'', hash_data ''cc'']
     \<and> [hash_data ''ab'', hash_data ''cc''] ! 1 = hash_data (''c'' @ ''c'')"
    using b odd_node_duplication [of hash_data "''a''" "''b''" "''c''" "[''a'', ''b'', ''c'']" ?t 0 1]
    by simp
qed

text \<open>
  C3 (proof non-transferability), as the specification states it: a proof generated
  from the tree of \<open>A\<close> fails against the root of the tree of \<open>B\<close> whenever the two
  lists differ. The lists \<open>[a, b, c]\<close> and \<open>[a, b, c, c]\<close> differ and have the same
  tree above level 0, since the unpaired \<open>c\<close> of the first is paired with itself: the
  proof for \<open>a\<close> generated from the first tree verifies against the root of the second,
  whatever the digest function.
\<close>

theorem proof_transfer_counterexample:
  "\<forall>hash_data :: hash_fn.
     (let a = hash_data ''A''; b = hash_data ''B''; c = hash_data ''C'';
          ab = hash_data (a @ b); cc = hash_data (c @ c); r = hash_data (ab @ cc)
      in [a, b, c] \<noteq> [a, b, c, c]
         \<and> build_merkle_tree hash_data [a, b, c] = Some [[a, b, c], [ab, cc], [r]]
         \<and> build_merkle_tree hash_data [a, b, c, c] = Some [[a, b, c, c], [ab, cc], [r]]
         \<and> get_merkle_proof hash_data [[a, b, c], [ab, cc], [r]] a = [(b, ''right''), (cc, ''right'')]
         \<and> get_merkle_root [[a, b, c, c], [ab, cc], [r]] = r
         \<and> verify_merkle_proof hash_data [(b, ''right''), (cc, ''right'')] a r)"
  by (simp add: Let_def build_merkle_tree_def build_loop.simps pair_loop.simps
      get_merkle_proof_def proof_loop.simps scan_level.simps get_merkle_root_def
      verify_merkle_proof_def)

text \<open>
  C3, amended: a proof generated from the tree of \<open>A\<close> for a leaf of \<open>A\<close> verifies
  against the root of the tree of \<open>B\<close> exactly when the two trees have the same root;
  it fails whenever the roots differ.
\<close>

theorem proof_transfer_iff_same_root:
  "A \<noteq> [] \<Longrightarrow> B \<noteq> [] \<Longrightarrow> t \<in> set A \<Longrightarrow>
   \<exists>treeA treeB. build_merkle_tree hash_data A = Some treeA
     \<and> build_merkle_tree hash_data B = Some treeB
     \<and> verify_merkle_proof hash_data (get_merkle_proof hash_data treeA t) t (get_merkle_root treeB)
         = (get_merkle_root treeB = get_merkle_root treeA)"
  by (simp add: build_merkle_tree_levels verify_levels)

theorem proof_transfer_iff_same_root_witness:
  "\<forall>hash_data :: hash_fn.
     [''a'', ''b''] \<noteq> [] \<and> [''c''] \<noteq> [] \<and> ''b'' \<in> set [''a'', ''b'']
     \<and> (\<exists>treeA treeB. build_merkle_tree hash_data [''a'', ''b''] = Some treeA
           \<and> build_merkle_tree hash_data [''c''] = Some treeB
           \<and> verify_merkle_proof hash_data (get_merkle_proof hash_data treeA ''b'') ''b''
                (get_merkle_root treeB)
               = (get_merkle_root treeB = get_merkle_root treeA))"
proof
  fix hash_data :: hash_fn
  show "[''a'', ''b''] \<noteq> [] \<and> [''c''] \<noteq> [] \<and> ''b'' \<in> set [''a'', ''b'']
     \<and> (\<exists>treeA treeB. build_merkle_tree hash_data [''a'', ''b''] = Some treeA
           \<and> build_merkle_tree hash_data [''c''] = Some treeB
           \<and> verify_merkle_proof hash_data (get_merkle_proof hash_data treeA ''b'') ''b''
                (get_merkle_root treeB)
               = (get_merkle_root treeB = get_merkle_root treeA))"
    using proof_transfer_iff_same_root [of "[''a'', ''b'']" "[''c'']" "''b''" hash_data]
    by simp
qed

text \<open>
  C4 (tree shape). For every non-empty list of digests the tree is built, each level
  above level 0 has the ceiling of half the length of the level below it, and the last
  level holds exactly one digest.
\<close>

theorem tree_shape:
  "leaf_hashes \<noteq> [] \<Longrightarrow>
   \<exists>tree. build_merkle_tree hash_data leaf_hashes = Some tree
     \<and> (\<forall>k. k + 1 < length tree \<longrightarrow>
           int (length (tree ! (k + 1))) = \<lceil>real (length (tree ! k)) / 2\<rceil>)
     \<and> length (last tree) = 1"
proof -
  assume ne: "leaf_hashes \<noteq> []"
  let ?tree = "levels hash_data leaf_hashes"
  have "int (length (?tree ! (k + 1))) = \<lceil>real (length (?tree ! k)) / 2\<rceil>"
    if "k + 1 < length ?tree" for k
  proof -
    have "?tree ! (k + 1) = pair_up hash_data (?tree ! k)"
      using that by (rule levels_next)
    then show ?thesis
      by (simp only: length_pair_up ceiling_half)
  qed
  then show ?thesis
    using ne levels_last [OF ne, of hash_data] build_merkle_tree_levels [OF ne, of hash_data]
    by blast
qed

theorem tree_shape_witness:
  "\<forall>hash_data :: hash_fn.
     [''a'', ''b'', ''c'', ''d'', ''e''] \<noteq> []
     \<and> (\<exists>tree. build_merkle_tree hash_data [''a'', ''b'', ''c'', ''d'', ''e''] = Some tree
           \<and> (\<forall>k. k + 1 < length tree \<longrightarrow>
                 int (length (tree ! (k + 1))) = \<lceil>real (length (tree ! k)) / 2\<rceil>)
           \<and> length (last tree) = 1)"
proof
  fix hash_data :: hash_fn
  show "[''a'', ''b'', ''c'', ''d'', ''e''] \<noteq> []
     \<and> (\<exists>tree. build_merkle_tree hash_data [''a'', ''b'', ''c'', ''d'', ''e''] = Some tree
           \<and> (\<forall>k. k + 1 < length tree \<longrightarrow>
                 int (length (tree ! (k + 1))) = \<lceil>real (length (tree ! k)) / 2\<rceil>)
           \<and> length (last tree) = 1)"
    using tree_shape [of "[''a'', ''b'', ''c'', ''d'', ''e'']" hash_data]
    by simp
qed

text \<open>
  C5 (proof length). For a non-empty list of digests and a target that occurs in it, the
  proof generated from the built tree has one step for each level below the root,
  \<open>len(tree) - 1\<close> of them, and they come bottom to top: step \<open>k\<close> holds a digest of
  level \<open>k\<close> and one of the two side markers.
\<close>

theorem proof_length:
  "leaf_hashes \<noteq> [] \<Longrightarrow> target_hash \<in> set leaf_hashes \<Longrightarrow>
   \<exists>tree. build_merkle_tree hash_data leaf_hashes = Some tree
     \<and> length (get_merkle_proof hash_data tree target_hash) = length tree - 1
     \<and> (\<forall>k < length (get_merkle_proof hash_data tree target_hash).
           fst (get_merkle_proof hash_data tree target_hash ! k) \<in> set (tree ! k)
           \<and> (snd (get_merkle_proof hash_data tree target_hash ! k) = ''left''
              \<or> snd (get_merkle_proof hash_data tree target_hash ! k) = ''right''))"
  using get_merkle_proof_levels [of target_hash leaf_hashes hash_data]
  by (simp add: build_merkle_tree_levels)

theorem proof_length_witness:
  "\<forall>hash_data :: hash_fn.
     [''a'', ''b'', ''c''] \<noteq> [] \<and> ''c'' \<in> set [''a'', ''b'', ''c'']
     \<and> (\<exists>tree. build_merkle_tree hash_data [''a'', ''b'', ''c''] = Some tree
          \<and> length (get_merkle_proof hash_data tree ''c'') = length tree - 1
          \<and> (\<forall>k < length (get_merkle_proof hash_data tree ''c'').
                fst (get_merkle_proof hash_data tree ''c'' ! k) \<in> set (tree ! k)
                \<and> (snd (get_merkle_proof hash_data tree ''c'' ! k) = ''left''
                   \<or> snd (get_merkle_proof hash_data tree ''c'' ! k) = ''right'')))"
proof
  fix hash_data :: hash_fn
  show "[''a'', ''b'', ''c''] \<noteq> [] \<and> ''c'' \<in> set [''a'', ''b'', ''c'']
     \<and> (\<exists>tree. build_merkle_tree hash_data [''a'', ''b'', ''c''] = Some tree
          \<and> length (get_merkle_proof hash_data tree ''c'') = length tree - 1
          \<and> (\<forall>k < length (get_merkle_proof hash_data tree ''c'').
                fst (get_merkle_proof hash_data tree ''c'' ! k) \<in> set (tree ! k)
                \<and> (snd (get_merkle_proof hash_data tree ''c'' ! k) = ''left''
                   \<or> snd (get_merkle_proof hash_data tree ''c'' ! k) = ''right'')))"
    using proof_length [of "[''a'', ''b'', ''c'']" "''c''" hash_data]
    by simp
qed

text \<open>
  C6 (single-leaf tree). The tree of the one-digest list \<open>[h]\<close> is the single level
  \<open>[h]\<close>, its root is \<open>h\<close> itself, unhashed; the proof generated for \<open>h\<close> is empty, and
  the empty proof verifies \<open>h\<close> against the root \<open>h\<close>.
\<close>

theorem single_leaf_tree:
  "build_merkle_tree hash_data [h] = Some [[h]]
   \<and> get_merkle_root [[h]] = h
   \<and> get_merkle_proof hash_data [[h]] h = []
   \<and> verify_merkle_proof hash_data [] h h"
  by (simp add: build_merkle_tree_def build_loop.simps get_merkle_root_def
      get_merkle_proof_one_level verify_merkle_proof_def)

text \<open>
  C7 (empty input). The tree of the empty list has no level; the root of that tree is
  the sentinel, the string \<open>EMPTY_CONTRACT\<close>; the proof generated from it is empty,
  whatever the target.
\<close>

theorem empty_input:
  "build_merkle_tree hash_data [] = Some []
   \<and> get_merkle_root [] = ''EMPTY_CONTRACT''
   \<and> get_merkle_proof hash_data [] target_hash = []"
  by (simp add: build_merkle_tree_def get_merkle_root_def get_merkle_proof_def)

text \<open>
  C8 (not found). For a list of at least two digests and a target that does not occur in
  it, the proof generated from the built tree is the empty list.
\<close>

theorem not_found_empty_proof:
  "2 \<le> length leaf_hashes \<Longrightarrow> target_hash \<notin> set leaf_hashes \<Longrightarrow>
   \<exists>tree. build_merkle_tree hash_data leaf_hashes = Some tree
     \<and> get_merkle_proof hash_data tree target_hash = []"
proof -
  assume len: "2 \<le> length leaf_hashes" and absent: "target_hash \<notin> set leaf_hashes"
  have "leaf_hashes \<noteq> []" using len by auto
  then show ?thesis
    using get_merkle_proof_absent [OF len absent, of hash_data]
    by (simp add: build_merkle_tree_levels)
qed

theorem not_found_empty_proof_witness:
  "\<forall>hash_data :: hash_fn.
     2 \<le> length [''a'', ''b'', ''c''] \<and> ''z'' \<notin> set [''a'', ''b'', ''c'']
     \<and> (\<exists>tree. build_merkle_tree hash_data [''a'', ''b'', ''c''] = Some tree
           \<and> get_merkle_proof hash_data tree ''z'' = [])"
proof
  fix hash_data :: hash_fn
  show "2 \<le> length [''a'', ''b'', ''c''] \<and> ''z'' \<notin> set [''a'', ''b'', ''c'']
     \<and> (\<exists>tree. build_merkle_tree hash_data [''a'', ''b'', ''c''] = Some tree
           \<and> get_merkle_proof hash_data tree ''z'' = [])"
    using not_found_empty_proof [of "[''a'', ''b'', ''c'']" "''z''" hash_data]
    by simp
qed

text \<open>
  C9 (single leaf and not found are conflated). On a one-level tree \<open>[[h]]\<close> the
  generated proof is empty for every target, so it is the same for a target other than
  \<open>h\<close> as for \<open>h\<close> itself.
\<close>

theorem single_leaf_conflation:
  "get_merkle_proof hash_data [[h]] target_hash = []
   \<and> get_merkle_proof hash_data [[h]] target_hash = get_merkle_proof hash_data [[h]] h"
  by (simp add: get_merkle_proof_one_level)

text \<open>
  C10 (termination). \<open>build_merkle_tree\<close> returns a tree for every list of digests.
  The reason: a pass over a level of more than one digest yields a level of the ceiling
  of half as many, which is strictly fewer.
\<close>

theorem build_merkle_tree_terminates:
  "(\<exists>tree. build_merkle_tree hash_data leaf_hashes = Some tree)
   \<and> (1 < length level \<longrightarrow>
        int (length (pair_loop hash_data level 0 [])) = \<lceil>real (length level) / 2\<rceil>
        \<and> length (pair_loop hash_data level 0 []) < length level)"
proof (intro conjI impI)
  show "\<exists>tree. build_merkle_tree hash_data leaf_hashes = Some tree"
  proof (cases "leaf_hashes = []")
    case True
    then show ?thesis by (simp add: build_merkle_tree_def)
  next
    case False
    then show ?thesis by (simp add: build_merkle_tree_levels)
  qed
next
  show "int (length (pair_loop hash_data level 0 [])) = \<lceil>real (length level) / 2\<rceil>"
    by (simp only: pair_loop_pair_up length_pair_up ceiling_half)
next
  assume "1 < length level"
  then show "length (pair_loop hash_data level 0 []) < length level"
    by (simp only: pair_loop_pair_up pair_up_shorter)
qed

theorem build_merkle_tree_terminates_witness:
  "\<forall>hash_data :: hash_fn.
     (\<exists>tree. build_merkle_tree hash_data [''a'', ''b'', ''c'', ''d'', ''e''] = Some tree)
     \<and> 1 < length [''a'', ''b'', ''c'', ''d'', ''e'']
     \<and> int (length (pair_loop hash_data [''a'', ''b'', ''c'', ''d'', ''e''] 0 []))
         = \<lceil>real (length [''a'', ''b'', ''c'', ''d'', ''e'']) / 2\<rceil>
     \<and> length (pair_loop hash_data [''a'', ''b'', ''c'', ''d'', ''e''] 0 [])
         < length [''a'', ''b'', ''c'', ''d'', ''e'']"
proof
  fix hash_data :: hash_fn
  show "(\<exists>tree. build_merkle_tree hash_data [''a'', ''b'', ''c'', ''d'', ''e''] = Some tree)
     \<and> 1 < length [''a'', ''b'', ''c'', ''d'', ''e'']
     \<and> int (length (pair_loop hash_data [''a'', ''b'', ''c'', ''d'', ''e''] 0 []))
         = \<lceil>real (length [''a'', ''b'', ''c'', ''d'', ''e'']) / 2\<rceil>
     \<and> length (pair_loop hash_data [''a'', ''b'', ''c'', ''d'', ''e''] 0 [])
         < length [''a'', ''b'', ''c'', ''d'', ''e'']"
    using build_merkle_tree_terminates
      [of hash_data "[''a'', ''b'', ''c'', ''d'', ''e'']" "[''a'', ''b'', ''c'', ''d'', ''e'']"]
    by simp
qed

end
